theory Spec2Isabelle
  imports Main "HOL-Library.Word"
begin

section \<open>The DNS cache resolver of internal/platform/proxy/dnscache.go\<close>

text \<open>
  The development embeds \<^verbatim>\<open>dnscache.go\<close>: the constructor \<^verbatim>\<open>NewDNSResolver\<close> and
  the four methods \<^verbatim>\<open>LookupIP\<close>, \<^verbatim>\<open>Fetch\<close>, \<^verbatim>\<open>Refresh\<close> and \<^verbatim>\<open>Stop\<close> of
  \<^verbatim>\<open>Resolver\<close>. Each method is a function from the resolver's state to its Go return
  values and the state afterwards. Everything a method does to the outside (the call of
  the name resolver, the calls on the mutex, the accesses to the map, the log entry, the
  call of the closer) is appended, in program order, to a trace kept in the state.

  Calls are taken one at a time: a call runs from its first statement to its return
  before the next one starts. The goroutine that the constructor starts calls
  \<^verbatim>\<open>Refresh\<close> at every tick of the ticker until the channel is closed; its sweeps
  are calls of \<^verbatim>\<open>Refresh\<close> like those of any caller.
\<close>

subsection \<open>Data\<close>

text \<open>\<^verbatim>\<open>time.Duration\<close> is an \<^verbatim>\<open>int64\<close> counting nanoseconds; comparisons are signed.\<close>

type_synonym Duration = "64 word"

definition Second :: Duration where
  "Second = 1000000000"

definition defaultFreq :: Duration where
  "defaultFreq = 3 * Second"

definition defaultLookupTimeout :: Duration where
  "defaultLookupTimeout = 10 * Second"

text \<open>
  A Go slice is either \<^verbatim>\<open>nil\<close> or allocated; an allocated slice may have length 0
  (\<^verbatim>\<open>make([]net.IP, 0)\<close>) and is then still different from \<^verbatim>\<open>nil\<close>.
\<close>

datatype 'a slice = nil | Slice "'a list"

fun elems :: "'a slice \<Rightarrow> 'a list" where
  "elems nil = []"
| "elems (Slice xs) = xs"

definition len :: "'a slice \<Rightarrow> nat" where
  "len xs = length (elems xs)"

text \<open>\<^verbatim>\<open>net.IP\<close> is a byte slice; \<^verbatim>\<open>net.IPAddr\<close> pairs it with a zone.\<close>

type_synonym IP = "8 word list"

record IPAddr =
  IP :: IP
  Zone :: string

text \<open>A Go \<^verbatim>\<open>error\<close> value; the \<^verbatim>\<open>nil\<close> error is \<open>None\<close> of \<open>error option\<close>.\<close>

datatype error = Err string

text \<open>
  The contexts that reach the resolver: the caller's own, and the one \<^verbatim>\<open>Refresh\<close>
  builds with \<^verbatim>\<open>context.WithTimeout(context.Background(), r.lookupTimeout)\<close>.
\<close>

datatype "context" = Background | WithTimeout "context" Duration | WithCancel "context"

text \<open>
  The name resolver \<^verbatim>\<open>resolver.LookupIPAddr(ctx, host)\<close> is outside the program. Its
  answer to the same question may change from one call to the next, so it is a function
  of the number of resolutions made before, the context and the host, and returns Go's
  pair of an address slice and an error.
\<close>

type_synonym lookupIPAddr = "nat \<Rightarrow> context \<Rightarrow> string \<Rightarrow> IPAddr slice \<times> error option"

datatype event =
    RLock | RUnlock | Lock | Unlock
  | MapRead string
  | MapRange
  | MapWrite string
  | Resolve "context" string "IPAddr slice \<times> error option"
  | LogError error string
  | CallCloser

text \<open>
  The struct \<^verbatim>\<open>Resolver\<close>. \<open>closer\<close> is \<open>True\<close> while the field holds the closure and
  \<open>False\<close> once it is \<^verbatim>\<open>nil\<close>. The closure captures the ticker and the channel
  \<^verbatim>\<open>ch\<close> of the constructor: \<open>tickerPeriod\<close>, \<open>tickerStopped\<close> and \<open>chClosed\<close>
  are their state. \<open>logger\<close> is \<open>True\<close> when the field points to a logger and \<open>False\<close>
  when it is the \<^verbatim>\<open>nil\<close> pointer; what a logger is told is seen through the trace, as
  are \<^verbatim>\<open>lookupIPFn\<close> and \<^verbatim>\<open>lock\<close>.
\<close>

record Resolver =
  lookupTimeout :: Duration
  logger :: bool
  cache :: "string \<rightharpoonup> IP slice"
  closer :: bool
  tickerPeriod :: Duration
  tickerStopped :: bool
  chClosed :: bool
  trace :: "event list"

datatype panic = NonPositiveTickerInterval | CloseOfClosedChannel | NilPointerDereference

subsection \<open>Operations\<close>

definition emit :: "event list \<Rightarrow> Resolver \<Rightarrow> Resolver" where
  "emit es s = s\<lparr>trace := trace s @ es\<rparr>"

fun isResolve :: "event \<Rightarrow> bool" where
  "isResolve (Resolve ctx host res) = True"
| "isResolve e = False"

definition ncalls :: "event list \<Rightarrow> nat" where
  "ncalls t = length (filter isResolve t)"

text \<open>\<^verbatim>\<open>time.NewTicker(d)\<close> panics unless \<^verbatim>\<open>d > 0\<close>.\<close>

definition NewTicker :: "Duration \<Rightarrow> panic + Duration" where
  "NewTicker d = (if sint d \<le> 0 then Inl NonPositiveTickerInterval else Inr d)"

text \<open>
  \<^verbatim>\<open>NewDNSResolver(freq, lookupTimeout, resolver, logger)\<close>. The resolver is the
  parameter \<open>env\<close> of the methods. The logger pointer is stored as it comes, \<^verbatim>\<open>nil\<close>
  or not.
\<close>

definition NewDNSResolver :: "Duration \<Rightarrow> Duration \<Rightarrow> bool \<Rightarrow> panic + Resolver" where
  "NewDNSResolver freq0 lookupTimeout0 logger0 =
     (let freq = (if sint freq0 \<le> 0 then defaultFreq else freq0);
          lookupTimeout1 = (if sint lookupTimeout0 \<le> 0 then defaultLookupTimeout else lookupTimeout0)
      in case NewTicker freq of
           Inl p \<Rightarrow> Inl p
         | Inr ticker \<Rightarrow>
             Inr \<lparr> lookupTimeout = lookupTimeout1,
                   logger = logger0,
                   cache = Map.empty,
                   closer = True,
                   tickerPeriod = ticker,
                   tickerStopped = False,
                   chClosed = False,
                   trace = [] \<rparr>)"

text \<open>
  The closure \<^verbatim>\<open>lookupIPFn\<close>: one call of the name resolver; on an error
  \<^verbatim>\<open>nil, err\<close>, otherwise a fresh slice of \<^verbatim>\<open>len(addrs)\<close> entries holding the
  \<^verbatim>\<open>IP\<close> field of each address.
\<close>

definition ipsOf :: "IPAddr slice \<times> error option \<Rightarrow> IP slice \<times> error option" where
  "ipsOf res =
     (case snd res of
        Some e \<Rightarrow> (nil, Some e)
      | None \<Rightarrow> (Slice (map IP (elems (fst res))), None))"

definition lookupIPFn ::
  "lookupIPAddr \<Rightarrow> context \<Rightarrow> string \<Rightarrow> Resolver \<Rightarrow> (IP slice \<times> error option) \<times> Resolver" where
  "lookupIPFn env ctx host s =
     (let res = env (ncalls (trace s)) ctx host
      in (ipsOf res, emit [Resolve ctx host res] s))"

definition LookupIP ::
  "lookupIPAddr \<Rightarrow> context \<Rightarrow> string \<Rightarrow> Resolver \<Rightarrow> (IP slice \<times> error option) \<times> Resolver" where
  "LookupIP env ctx addr s =
     (case lookupIPFn env ctx addr s of
        ((ips, err), s1) \<Rightarrow>
          (case err of
             Some e \<Rightarrow> ((nil, Some e), s1)
           | None \<Rightarrow>
               let s2 = emit [Lock] s1;
                   s3 = emit [MapWrite addr] (s2\<lparr>cache := (cache s2)(addr \<mapsto> ips)\<rparr>);
                   s4 = emit [Unlock] s3
               in ((ips, None), s4)))"

definition Fetch ::
  "lookupIPAddr \<Rightarrow> context \<Rightarrow> string \<Rightarrow> Resolver \<Rightarrow> (IP slice \<times> error option) \<times> Resolver" where
  "Fetch env ctx addr s =
     (let s1 = emit [RLock] s;
          found = cache s1 addr;
          s2 = emit [RUnlock] (emit [MapRead addr] s1)
      in case found of
           Some ips \<Rightarrow> ((ips, None), s2)
         | None \<Rightarrow> LookupIP env ctx addr s2)"

text \<open>
  \<^verbatim>\<open>Refresh\<close>. Go visits the keys of a map in an order of its own choosing, so the
  snapshot \<open>addrs\<close> that the first loop builds is an argument; \<open>snapshot\<close> says which
  lists the loop can build from a given map. \<open>refreshOne\<close> is the body of the second
  loop and \<open>sweep\<close> the loop; \<^verbatim>\<open>cancelF()\<close> only releases the timer of the context,
  which has no state here.

  \<open>logFailure\<close> is the statement \<^verbatim>\<open>r.logger.WithFields(...).Error(...)\<close>. logrus
  reads a field of the logger first, so a call through the \<^verbatim>\<open>nil\<close> pointer panics
  before anything is logged; the panic leaves the loop and \<^verbatim>\<open>Refresh\<close>, so the hosts
  after the failing one are not looked up.
\<close>

definition snapshot :: "(string \<rightharpoonup> IP slice) \<Rightarrow> string list \<Rightarrow> bool" where
  "snapshot m addrs \<longleftrightarrow> distinct addrs \<and> set addrs = dom m"

definition logFailure :: "error \<Rightarrow> string \<Rightarrow> Resolver \<Rightarrow> panic option \<times> Resolver" where
  "logFailure e addr s =
     (if logger s then (None, emit [LogError e addr] s)
      else (Some NilPointerDereference, s))"

definition refreshOne :: "lookupIPAddr \<Rightarrow> string \<Rightarrow> Resolver \<Rightarrow> panic option \<times> Resolver" where
  "refreshOne env addr s =
     (case LookupIP env (WithTimeout Background (lookupTimeout s)) addr s of
        ((ips, err), s1) \<Rightarrow>
          (case err of
             Some e \<Rightarrow> logFailure e addr s1
           | None \<Rightarrow> (None, s1)))"

fun sweep :: "lookupIPAddr \<Rightarrow> string list \<Rightarrow> Resolver \<Rightarrow> panic option \<times> Resolver" where
  "sweep env [] s = (None, s)"
| "sweep env (addr # addrs) s =
     (case refreshOne env addr s of
        (Some p, s1) \<Rightarrow> (Some p, s1)
      | (None, s1) \<Rightarrow> sweep env addrs s1)"

definition Refresh :: "lookupIPAddr \<Rightarrow> string list \<Rightarrow> Resolver \<Rightarrow> panic option \<times> Resolver" where
  "Refresh env addrs s = sweep env addrs (emit [RLock, MapRange, RUnlock] s)"

text \<open>
  The closure \<^verbatim>\<open>closer\<close>: \<^verbatim>\<open>ticker.Stop()\<close>, then \<^verbatim>\<open>close(ch)\<close>, which panics on
  a channel that is closed already.
\<close>

definition callCloser :: "Resolver \<Rightarrow> panic option \<times> Resolver" where
  "callCloser s =
     (let s1 = emit [CallCloser] (s\<lparr>tickerStopped := True\<rparr>)
      in if chClosed s1 then (Some CloseOfClosedChannel, s1)
         else (None, s1\<lparr>chClosed := True\<rparr>))"

text \<open>\<^verbatim>\<open>Stop\<close>; the deferred \<^verbatim>\<open>Unlock\<close> runs on the way out, also out of a panic.\<close>

definition Stop :: "Resolver \<Rightarrow> panic option \<times> Resolver" where
  "Stop s =
     (let s1 = emit [Lock] s
      in if closer s1 then
           (case callCloser s1 of
              (Some p, s2) \<Rightarrow> (Some p, emit [Unlock] s2)
            | (None, s2) \<Rightarrow> (None, emit [Unlock] (s2\<lparr>closer := False\<rparr>)))
         else (None, emit [Unlock] s1))"

section \<open>Vocabulary of the properties\<close>

text \<open>The events an operation appends to the trace of the state it starts from.\<close>

definition newEvents :: "Resolver \<Rightarrow> Resolver \<Rightarrow> event list" where
  "newEvents s s' = drop (length (trace s)) (trace s')"

fun isLogError :: "event \<Rightarrow> bool" where
  "isLogError (LogError e host) = True"
| "isLogError ev = False"

text \<open>
  The last successfully resolved result of every host, read off a trace: a successful
  resolution overwrites what the host had, a failed one changes nothing.
\<close>

fun recordSuccess :: "(string \<rightharpoonup> IP slice) \<Rightarrow> event \<Rightarrow> (string \<rightharpoonup> IP slice)" where
  "recordSuccess m (Resolve ctx host res) =
     (case snd res of None \<Rightarrow> m(host \<mapsto> fst (ipsOf res)) | Some e \<Rightarrow> m)"
| "recordSuccess m ev = m"

definition resolved :: "event list \<Rightarrow> (string \<rightharpoonup> IP slice)" where
  "resolved t = foldl recordSuccess Map.empty t"

text \<open>
  A sweep over \<open>addrs\<close> from \<open>s\<close> never reaches the logger through a \<^verbatim>\<open>nil\<close> pointer:
  the resolver has a logger, or every resolution of the sweep succeeds. The sweep's
  resolutions are numbered from the number of resolutions made before.
\<close>

definition loggable :: "lookupIPAddr \<Rightarrow> string list \<Rightarrow> Resolver \<Rightarrow> bool" where
  "loggable env addrs s \<longleftrightarrow>
     logger s \<or>
     (\<forall>(k, h) \<in> set (List.enumerate (ncalls (trace s)) addrs).
        snd (env k (WithTimeout Background (lookupTimeout s)) h) = None)"

text \<open>
  Calls of the public interface, and runs of them one after the other. A call of
  \<^verbatim>\<open>Refresh\<close> comes with the key order of its snapshot; the runs below take any list
  there, so what holds of them holds for every order Go can choose. A run goes on after
  a call that panicked, from the state the panic left, as it does for a caller that
  recovers.
\<close>

datatype call =
    CallLookupIP "context" string
  | CallFetch "context" string
  | CallRefresh "string list"
  | CallStop

fun exec :: "lookupIPAddr \<Rightarrow> call \<Rightarrow> Resolver \<Rightarrow> Resolver" where
  "exec env (CallLookupIP ctx addr) s = snd (LookupIP env ctx addr s)"
| "exec env (CallFetch ctx addr) s = snd (Fetch env ctx addr s)"
| "exec env (CallRefresh addrs) s = snd (Refresh env addrs s)"
| "exec env CallStop s = snd (Stop s)"

fun run :: "lookupIPAddr \<Rightarrow> call list \<Rightarrow> Resolver \<Rightarrow> Resolver" where
  "run env [] s = s"
| "run env (c # cs) s = run env cs (exec env c s)"

text \<open>\<^verbatim>\<open>Fetch\<close> of one host, once for each context of a list.\<close>

fun FetchAll ::
  "lookupIPAddr \<Rightarrow> context list \<Rightarrow> string \<Rightarrow> Resolver \<Rightarrow>
     (IP slice \<times> error option) list \<times> Resolver" where
  "FetchAll env [] addr s = ([], s)"
| "FetchAll env (ctx # ctxs) addr s =
     (case Fetch env ctx addr s of
        (r, s1) \<Rightarrow> (case FetchAll env ctxs addr s1 of (rs, s2) \<Rightarrow> (r # rs, s2)))"

text \<open>
  The lock discipline, checked along a trace from the lock state before it: a read of the
  map needs the shared lock, a write of the map and the call of the closer need the
  exclusive lock, a resolution needs the lock to be free, locks are taken when free and
  released by their holder, and the trace ends with the lock free.
\<close>

datatype lockstate = Free | Shared | Exclusive

fun discipline :: "lockstate \<Rightarrow> event list \<Rightarrow> bool" where
  "discipline l [] = (l = Free)"
| "discipline l (RLock # es) = (l = Free \<and> discipline Shared es)"
| "discipline l (RUnlock # es) = (l = Shared \<and> discipline Free es)"
| "discipline l (Lock # es) = (l = Free \<and> discipline Exclusive es)"
| "discipline l (Unlock # es) = (l = Exclusive \<and> discipline Free es)"
| "discipline l (MapRead host # es) = (l = Shared \<and> discipline l es)"
| "discipline l (MapRange # es) = (l = Shared \<and> discipline l es)"
| "discipline l (MapWrite host # es) = (l = Exclusive \<and> discipline l es)"
| "discipline l (CallCloser # es) = (l = Exclusive \<and> discipline l es)"
| "discipline l (Resolve ctx host res # es) = (l = Free \<and> discipline l es)"
| "discipline l (LogError e host # es) = discipline l es"

text \<open>
  Name resolvers for the examples: one that always answers \<^verbatim>\<open>10.0.0.1\<close> for
  \<^verbatim>\<open>a.test\<close>, no address for \<^verbatim>\<open>empty.test\<close> and an error for every other host,
  and one whose first answer is \<^verbatim>\<open>10.0.0.1\<close> and whose later answers are errors.
\<close>

definition addr10 :: "IPAddr" where
  "addr10 = \<lparr> IP = [10, 0, 0, 1], Zone = [] \<rparr>"

definition stubResolver :: lookupIPAddr where
  "stubResolver n ctx host =
     (if host = ''a.test'' then (Slice [addr10], None)
      else if host = ''empty.test'' then (Slice [], None)
      else (nil, Some (Err ''no such host'')))"

definition flakyResolver :: lookupIPAddr where
  "flakyResolver n ctx host =
     (if n = 0 then (Slice [addr10], None) else (nil, Some (Err ''timeout'')))"

text \<open>The resolver that \<^verbatim>\<open>NewDNSResolver(0, 0, ...)\<close> returns for a logger.\<close>

definition fresh :: Resolver where
  "fresh = \<lparr> lookupTimeout = 10 * Second, logger = True, cache = Map.empty, closer = True,
             tickerPeriod = 3 * Second, tickerStopped = False, chClosed = False,
             trace = [] \<rparr>"

text \<open>The fresh resolver after one successful lookup of \<^verbatim>\<open>a.test\<close>.\<close>

definition cached :: Resolver where
  "cached = snd (LookupIP flakyResolver Background ''a.test'' fresh)"

text \<open>
  A resolver whose first two answers are \<^verbatim>\<open>10.0.0.1\<close> and which then answers
  \<^verbatim>\<open>10.0.0.2\<close> for \<^verbatim>\<open>a.test\<close> and an error for every other host, and the fresh
  resolver after a lookup of \<^verbatim>\<open>a.test\<close> and a fetch of \<^verbatim>\<open>b.test\<close> with it.
\<close>

definition addr10b :: "IPAddr" where
  "addr10b = \<lparr> IP = [10, 0, 0, 2], Zone = [] \<rparr>"

definition sweepResolver :: lookupIPAddr where
  "sweepResolver n ctx host =
     (if n < 2 then (Slice [addr10], None)
      else if host = ''a.test'' then (Slice [addr10b], None)
      else (nil, Some (Err ''timeout'')))"

definition twoCached :: Resolver where
  "twoCached =
     run sweepResolver [CallLookupIP Background ''a.test'', CallFetch Background ''b.test''] fresh"

text \<open>
  The resolver that \<^verbatim>\<open>NewDNSResolver(0, 0, ...)\<close> returns for the \<^verbatim>\<open>nil\<close> logger,
  and that resolver after the same two calls.
\<close>

definition freshNoLogger :: Resolver where
  "freshNoLogger = fresh\<lparr>logger := False\<rparr>"

definition twoCachedNoLogger :: Resolver where
  "twoCachedNoLogger =
     run sweepResolver [CallLookupIP Background ''a.test'', CallFetch Background ''b.test'']
       freshNoLogger"

section \<open>Basic facts\<close>

lemma emit_fields [simp]:
  "lookupTimeout (emit es s) = lookupTimeout s"
  "logger (emit es s) = logger s"
  "cache (emit es s) = cache s"
  "closer (emit es s) = closer s"
  "tickerPeriod (emit es s) = tickerPeriod s"
  "tickerStopped (emit es s) = tickerStopped s"
  "chClosed (emit es s) = chClosed s"
  "trace (emit es s) = trace s @ es"
  by (simp_all add: emit_def)

lemma emit_emit [simp]: "emit es (emit ds s) = emit (ds @ es) s"
  by (simp add: emit_def)

lemma emit_cache_update [simp]:
  "emit es (s\<lparr>cache := m\<rparr>) = (emit es s)\<lparr>cache := m\<rparr>"
  by (simp add: emit_def)

lemma ncalls_simps [simp]:
  "ncalls [] = 0"
  "ncalls (t @ u) = ncalls t + ncalls u"
  "ncalls (e # t) = (if isResolve e then Suc (ncalls t) else ncalls t)"
  by (simp_all add: ncalls_def)

lemma LookupIP_failure:
  assumes "snd (env (ncalls (trace s)) ctx addr) = Some e"
  shows "LookupIP env ctx addr s =
           ((nil, Some e), emit [Resolve ctx addr (env (ncalls (trace s)) ctx addr)] s)"
  using assms by (simp add: LookupIP_def lookupIPFn_def ipsOf_def Let_def)

lemma LookupIP_success:
  assumes "snd (env (ncalls (trace s)) ctx addr) = None"
  shows "LookupIP env ctx addr s =
           ((Slice (map IP (elems (fst (env (ncalls (trace s)) ctx addr)))), None),
            (emit [Resolve ctx addr (env (ncalls (trace s)) ctx addr), Lock, MapWrite addr, Unlock] s)
              \<lparr>cache := (cache s)(addr \<mapsto> Slice (map IP (elems (fst (env (ncalls (trace s)) ctx addr)))))\<rparr>)"
  using assms by (simp add: LookupIP_def lookupIPFn_def ipsOf_def Let_def)

lemma Fetch_hit:
  assumes "cache s addr = Some ips"
  shows "Fetch env ctx addr s = ((ips, None), emit [RLock, MapRead addr, RUnlock] s)"
  using assms by (simp add: Fetch_def Let_def)

lemma Fetch_miss:
  assumes "cache s addr = None"
  shows "Fetch env ctx addr s = LookupIP env ctx addr (emit [RLock, MapRead addr, RUnlock] s)"
  using assms by (simp add: Fetch_def Let_def)

lemma newEvents_emit [simp]: "newEvents s (emit es s) = es"
  by (simp add: newEvents_def)

lemma newEvents_emit_cache [simp]: "newEvents s ((emit es s)\<lparr>cache := m\<rparr>) = es"
  by (simp add: newEvents_def)

lemma filter_isResolve_locks [simp]:
  "filter isResolve [RLock, MapRead addr, RUnlock] = []"
  by simp

lemma FetchAll_hits:
  assumes "cache s addr = Some ips"
  shows "FetchAll env ctxs addr s =
           (replicate (length ctxs) (ips, None),
            emit (concat (replicate (length ctxs) [RLock, MapRead addr, RUnlock])) s)"
  using assms
proof (induction ctxs arbitrary: s)
  case Nil
  then show ?case by (simp add: emit_def)
next
  case (Cons ctx ctxs)
  have "cache (emit [RLock, MapRead addr, RUnlock] s) addr = Some ips"
    using Cons.prems by simp
  from Cons.IH [OF this] show ?case
    using Cons.prems by (simp add: Fetch_hit)
qed

lemma ncalls_hits [simp]:
  "ncalls (concat (replicate n [RLock, MapRead addr, RUnlock])) = 0"
  by (induction n) simp_all

lemmas eval_defs =
  LookupIP_def lookupIPFn_def ipsOf_def Fetch_def emit_def Let_def ncalls_def newEvents_def
  stubResolver_def flakyResolver_def fresh_def cached_def addr10_def

lemma NewDNSResolver_fresh: "NewDNSResolver 0 0 True = Inr fresh"
  by (simp add: NewDNSResolver_def NewTicker_def Let_def fresh_def defaultFreq_def Second_def)
    (simp add: defaultLookupTimeout_def Second_def)

lemma twoCached_eq:
  "twoCached =
     \<lparr> lookupTimeout = 10 * Second, logger = True,
       cache = [''a.test'' \<mapsto> Slice [[10, 0, 0, 1]], ''b.test'' \<mapsto> Slice [[10, 0, 0, 1]]],
       closer = True, tickerPeriod = 3 * Second, tickerStopped = False, chClosed = False,
       trace = [Resolve Background ''a.test'' (Slice [addr10], None), Lock, MapWrite ''a.test'', Unlock,
                RLock, MapRead ''b.test'', RUnlock,
                Resolve Background ''b.test'' (Slice [addr10], None), Lock, MapWrite ''b.test'', Unlock] \<rparr>"
  by (simp add: twoCached_def eval_defs sweepResolver_def)

lemma NewDNSResolver_freshNoLogger: "NewDNSResolver 0 0 False = Inr freshNoLogger"
  by (simp add: NewDNSResolver_def NewTicker_def Let_def fresh_def freshNoLogger_def
      defaultFreq_def Second_def)
    (simp add: defaultLookupTimeout_def Second_def)

lemma twoCachedNoLogger_eq:
  "twoCachedNoLogger =
     \<lparr> lookupTimeout = 10 * Second, logger = False,
       cache = [''a.test'' \<mapsto> Slice [[10, 0, 0, 1]], ''b.test'' \<mapsto> Slice [[10, 0, 0, 1]]],
       closer = True, tickerPeriod = 3 * Second, tickerStopped = False, chClosed = False,
       trace = [Resolve Background ''a.test'' (Slice [addr10], None), Lock, MapWrite ''a.test'', Unlock,
                RLock, MapRead ''b.test'', RUnlock,
                Resolve Background ''b.test'' (Slice [addr10], None), Lock, MapWrite ''b.test'', Unlock] \<rparr>"
  by (simp add: twoCachedNoLogger_def freshNoLogger_def eval_defs sweepResolver_def)

subsection \<open>One pass of the refresh loop, and Stop\<close>

lemma refreshOne_success:
  assumes "snd (env (ncalls (trace s)) (WithTimeout Background (lookupTimeout s)) addr) = None"
  shows "refreshOne env addr s =
           (None,
            (emit [Resolve (WithTimeout Background (lookupTimeout s)) addr
                     (env (ncalls (trace s)) (WithTimeout Background (lookupTimeout s)) addr),
                   Lock, MapWrite addr, Unlock] s)
              \<lparr>cache := (cache s)(addr \<mapsto>
                 Slice (map IP (elems (fst (env (ncalls (trace s))
                   (WithTimeout Background (lookupTimeout s)) addr)))))\<rparr>)"
  using assms by (simp add: refreshOne_def LookupIP_success)

lemma refreshOne_failure:
  assumes "snd (env (ncalls (trace s)) (WithTimeout Background (lookupTimeout s)) addr) = Some e"
    and "logger s"
  shows "refreshOne env addr s =
           (None,
            emit [Resolve (WithTimeout Background (lookupTimeout s)) addr
                    (env (ncalls (trace s)) (WithTimeout Background (lookupTimeout s)) addr),
                  LogError e addr] s)"
  using assms by (simp add: refreshOne_def LookupIP_failure logFailure_def)

lemma refreshOne_panic:
  assumes "snd (env (ncalls (trace s)) (WithTimeout Background (lookupTimeout s)) addr) = Some e"
    and "\<not> logger s"
  shows "refreshOne env addr s =
           (Some NilPointerDereference,
            emit [Resolve (WithTimeout Background (lookupTimeout s)) addr
                    (env (ncalls (trace s)) (WithTimeout Background (lookupTimeout s)) addr)] s)"
  using assms by (simp add: refreshOne_def LookupIP_failure logFailure_def)

lemmas refreshOne_cases = refreshOne_success refreshOne_failure refreshOne_panic

lemma sweep_Cons:
  "sweep env (a # addrs) s =
     (if fst (refreshOne env a s) = None then sweep env addrs (snd (refreshOne env a s))
      else refreshOne env a s)"
  by (cases "refreshOne env a s") (auto split: option.splits)

declare sweep.simps(2) [simp del]

lemma Stop_closed:
  assumes "\<not> closer s"
  shows "Stop s = (None, emit [Lock, Unlock] s)"
  using assms by (simp add: Stop_def Let_def)

lemma Stop_open:
  assumes "closer s"
  shows "Stop s =
           (if chClosed s
            then (Some CloseOfClosedChannel, (emit [Lock, CallCloser, Unlock] s)\<lparr>tickerStopped := True\<rparr>)
            else (None, (emit [Lock, CallCloser, Unlock] s)
                          \<lparr>closer := False, tickerStopped := True, chClosed := True\<rparr>))"
  using assms by (simp add: Stop_def callCloser_def Let_def emit_def)

lemma fields_LookupIP [simp]:
  "closer (snd (LookupIP env ctx addr s)) = closer s"
  "chClosed (snd (LookupIP env ctx addr s)) = chClosed s"
  "lookupTimeout (snd (LookupIP env ctx addr s)) = lookupTimeout s"
  "logger (snd (LookupIP env ctx addr s)) = logger s"
  by (cases "snd (env (ncalls (trace s)) ctx addr)";
      simp add: LookupIP_success LookupIP_failure)+

lemma fields_Fetch [simp]:
  "closer (snd (Fetch env ctx addr s)) = closer s"
  "chClosed (snd (Fetch env ctx addr s)) = chClosed s"
  "lookupTimeout (snd (Fetch env ctx addr s)) = lookupTimeout s"
  "logger (snd (Fetch env ctx addr s)) = logger s"
  by (cases "cache s addr"; simp add: Fetch_hit Fetch_miss)+

lemma fields_refreshOne [simp]:
  "closer (snd (refreshOne env addr s)) = closer s"
  "chClosed (snd (refreshOne env addr s)) = chClosed s"
  "lookupTimeout (snd (refreshOne env addr s)) = lookupTimeout s"
  "logger (snd (refreshOne env addr s)) = logger s"
  by (cases "snd (env (ncalls (trace s)) (WithTimeout Background (lookupTimeout s)) addr)";
      cases "logger s"; simp add: refreshOne_cases)+

lemma fields_sweep [simp]:
  "closer (snd (sweep env addrs s)) = closer s"
  "chClosed (snd (sweep env addrs s)) = chClosed s"
  "lookupTimeout (snd (sweep env addrs s)) = lookupTimeout s"
  "logger (snd (sweep env addrs s)) = logger s"
  by (induction addrs arbitrary: s) (simp_all add: sweep_Cons)

lemma fields_Refresh [simp]:
  "closer (snd (Refresh env addrs s)) = closer s"
  "chClosed (snd (Refresh env addrs s)) = chClosed s"
  "lookupTimeout (snd (Refresh env addrs s)) = lookupTimeout s"
  "logger (snd (Refresh env addrs s)) = logger s"
  by (simp_all add: Refresh_def)

lemma closer_Stop:
  "closer s \<longrightarrow> \<not> chClosed s \<Longrightarrow> \<not> closer (snd (Stop s))"
  by (cases "closer s") (simp_all add: Stop_closed Stop_open)

lemma closer_exec: "\<not> closer s \<Longrightarrow> \<not> closer (exec env c s)"
  by (cases c) (simp_all add: Stop_closed)

lemma closer_run: "\<not> closer s \<Longrightarrow> \<not> closer (run env cs s)"
  by (induction cs arbitrary: s) (simp_all add: closer_exec)

lemma live_exec:
  "closer s \<longrightarrow> \<not> chClosed s \<Longrightarrow> closer (exec env c s) \<longrightarrow> \<not> chClosed (exec env c s)"
  by (cases c; cases "closer s") (simp_all add: Stop_closed Stop_open)

lemma live_run:
  "closer s \<longrightarrow> \<not> chClosed s \<Longrightarrow> closer (run env cs s) \<longrightarrow> \<not> chClosed (run env cs s)"
proof (induction cs arbitrary: s)
  case Nil
  then show ?case by simp
next
  case (Cons c cs)
  from Cons.prems have "closer (exec env c s) \<longrightarrow> \<not> chClosed (exec env c s)"
    by (rule live_exec)
  then show ?case
    using Cons.IH by simp
qed

lemma live_NewDNSResolver:
  "NewDNSResolver freq lt lg = Inr s \<Longrightarrow> closer s \<and> \<not> chClosed s"
  by (auto simp add: NewDNSResolver_def Let_def split: sum.splits)

lemma no_panic_Stop:
  "closer s \<longrightarrow> \<not> chClosed s \<Longrightarrow> fst (Stop s) = None"
  by (cases "closer s") (simp_all add: Stop_closed Stop_open)

lemma cache_Stop: "cache (snd (Stop s)) = cache s"
  by (cases "closer s") (simp_all add: Stop_closed Stop_open)

subsection \<open>Traces only grow, and keep the lock discipline\<close>

lemma discipline_append:
  "discipline l es \<Longrightarrow> discipline Free fs \<Longrightarrow> discipline l (es @ fs)"
proof (induction es arbitrary: l)
  case Nil
  then show ?case by simp
next
  case (Cons e es)
  then show ?case by (cases e) auto
qed

lemma trace_LookupIP:
  "\<exists>es. trace (snd (LookupIP env ctx addr s)) = trace s @ es \<and> discipline Free es"
  by (cases "snd (env (ncalls (trace s)) ctx addr)") (simp_all add: LookupIP_success LookupIP_failure)

lemma trace_Fetch:
  "\<exists>es. trace (snd (Fetch env ctx addr s)) = trace s @ es \<and> discipline Free es"
proof (cases "cache s addr")
  case None
  obtain es where
    "trace (snd (LookupIP env ctx addr (emit [RLock, MapRead addr, RUnlock] s))) =
       trace (emit [RLock, MapRead addr, RUnlock] s) @ es" and "discipline Free es"
    using trace_LookupIP by blast
  then have "trace (snd (Fetch env ctx addr s)) = trace s @ ([RLock, MapRead addr, RUnlock] @ es)
       \<and> discipline Free ([RLock, MapRead addr, RUnlock] @ es)"
    using None by (simp add: Fetch_miss)
  then show ?thesis by blast
next
  case (Some ips)
  then show ?thesis by (simp add: Fetch_hit)
qed

lemma trace_refreshOne:
  "\<exists>es. trace (snd (refreshOne env addr s)) = trace s @ es \<and> discipline Free es"
  by (cases "snd (env (ncalls (trace s)) (WithTimeout Background (lookupTimeout s)) addr)";
      cases "logger s") (simp_all add: refreshOne_cases)

lemma trace_sweep:
  "\<exists>es. trace (snd (sweep env addrs s)) = trace s @ es \<and> discipline Free es"
proof (induction addrs arbitrary: s)
  case Nil
  then show ?case by simp
next
  case (Cons a addrs)
  obtain es where 1: "trace (snd (refreshOne env a s)) = trace s @ es" and 2: "discipline Free es"
    using trace_refreshOne by blast
  show ?case
  proof (cases "fst (refreshOne env a s) = None")
    case True
    obtain fs where 3: "trace (snd (sweep env addrs (snd (refreshOne env a s)))) =
        trace (snd (refreshOne env a s)) @ fs"
      and 4: "discipline Free fs"
      using Cons.IH by blast
    have "trace (snd (sweep env (a # addrs) s)) = trace s @ (es @ fs)"
      using True 1 3 by (simp add: sweep_Cons)
    moreover have "discipline Free (es @ fs)"
      using 2 4 by (rule discipline_append)
    ultimately show ?thesis by blast
  next
    case False
    then have "trace (snd (sweep env (a # addrs) s)) = trace s @ es"
      using 1 by (auto simp add: sweep_Cons)
    then show ?thesis
      using 2 by blast
  qed
qed

lemma trace_Refresh:
  "\<exists>es. trace (snd (Refresh env addrs s)) = trace s @ es \<and> discipline Free es"
proof -
  obtain es where
    "trace (snd (sweep env addrs (emit [RLock, MapRange, RUnlock] s))) =
       trace (emit [RLock, MapRange, RUnlock] s) @ es" and "discipline Free es"
    using trace_sweep by blast
  then have "trace (snd (Refresh env addrs s)) = trace s @ ([RLock, MapRange, RUnlock] @ es)
       \<and> discipline Free ([RLock, MapRange, RUnlock] @ es)"
    by (simp add: Refresh_def)
  then show ?thesis by blast
qed

lemma trace_Stop:
  "\<exists>es. trace (snd (Stop s)) = trace s @ es \<and> discipline Free es"
  by (cases "closer s") (simp_all add: Stop_closed Stop_open)

lemma trace_exec:
  "\<exists>es. trace (exec env c s) = trace s @ es \<and> discipline Free es"
  by (cases c) (simp_all add: trace_LookupIP trace_Fetch trace_Refresh trace_Stop)

lemma newEvents_append: "trace s' = trace s @ es \<Longrightarrow> newEvents s s' = es"
  by (simp add: newEvents_def)

subsection \<open>The cache is the record of the successful resolutions\<close>

lemma resolved_append: "resolved (t @ es) = foldl recordSuccess (resolved t) es"
  by (simp add: resolved_def)

lemma resolved_Nil [simp]: "resolved [] = Map.empty"
  by (simp add: resolved_def)

lemma inv_LookupIP:
  assumes "cache s = resolved (trace s)"
  shows "cache (snd (LookupIP env ctx addr s)) = resolved (trace (snd (LookupIP env ctx addr s)))"
  using assms
  by (cases "snd (env (ncalls (trace s)) ctx addr)")
    (simp_all add: LookupIP_success LookupIP_failure resolved_append ipsOf_def)

lemma inv_Fetch:
  assumes "cache s = resolved (trace s)"
  shows "cache (snd (Fetch env ctx addr s)) = resolved (trace (snd (Fetch env ctx addr s)))"
proof (cases "cache s addr")
  case None
  have "cache (emit [RLock, MapRead addr, RUnlock] s) =
          resolved (trace (emit [RLock, MapRead addr, RUnlock] s))"
    using assms by (simp add: resolved_append)
  then show ?thesis
    using None by (simp add: Fetch_miss inv_LookupIP)
next
  case (Some ips)
  then show ?thesis
    using assms by (simp add: Fetch_hit resolved_append)
qed

lemma inv_refreshOne:
  assumes "cache s = resolved (trace s)"
  shows "cache (snd (refreshOne env addr s)) = resolved (trace (snd (refreshOne env addr s)))"
  using assms
  by (cases "snd (env (ncalls (trace s)) (WithTimeout Background (lookupTimeout s)) addr)";
      cases "logger s")
    (simp_all add: refreshOne_cases resolved_append ipsOf_def)

lemma inv_sweep:
  assumes "cache s = resolved (trace s)"
  shows "cache (snd (sweep env addrs s)) = resolved (trace (snd (sweep env addrs s)))"
  using assms by (induction addrs arbitrary: s) (simp_all add: sweep_Cons inv_refreshOne)

lemma inv_Refresh:
  assumes "cache s = resolved (trace s)"
  shows "cache (snd (Refresh env addrs s)) = resolved (trace (snd (Refresh env addrs s)))"
proof -
  have "cache (emit [RLock, MapRange, RUnlock] s) =
          resolved (trace (emit [RLock, MapRange, RUnlock] s))"
    using assms by (simp add: resolved_append)
  then show ?thesis
    by (simp add: Refresh_def inv_sweep)
qed

lemma inv_Stop:
  assumes "cache s = resolved (trace s)"
  shows "cache (snd (Stop s)) = resolved (trace (snd (Stop s)))"
  using assms by (cases "closer s") (simp_all add: Stop_closed Stop_open resolved_append)

lemma inv_exec:
  assumes "cache s = resolved (trace s)"
  shows "cache (exec env c s) = resolved (trace (exec env c s))"
  using assms by (cases c) (simp_all add: inv_LookupIP inv_Fetch inv_Refresh inv_Stop)

lemma inv_run:
  assumes "cache s = resolved (trace s)"
  shows "cache (run env cs s) = resolved (trace (run env cs s))"
  using assms by (induction cs arbitrary: s) (simp_all add: inv_exec)

lemma inv_NewDNSResolver:
  "NewDNSResolver freq lt lg = Inr s \<Longrightarrow> cache s = resolved (trace s)"
  by (auto simp add: NewDNSResolver_def Let_def split: sum.splits)

lemma dom_recordSuccess: "dom m \<subseteq> dom (recordSuccess m e)"
  by (cases e) (auto split: option.splits)

lemma dom_foldl_recordSuccess: "dom m \<subseteq> dom (foldl recordSuccess m es)"
proof (induction es arbitrary: m)
  case Nil
  then show ?case by simp
next
  case (Cons e es)
  have "dom m \<subseteq> dom (recordSuccess m e)"
    by (rule dom_recordSuccess)
  also have "\<dots> \<subseteq> dom (foldl recordSuccess (recordSuccess m e) es)"
    by (rule Cons.IH)
  finally show ?case by simp
qed

lemma new_key_foldl_recordSuccess:
  assumes "foldl recordSuccess m es h = Some v" and "m h = None"
  shows "\<exists>ctx addrs. Resolve ctx h (addrs, None) \<in> set es"
  using assms
proof (induction es arbitrary: m)
  case Nil
  then show ?case by simp
next
  case (Cons e es)
  show ?case
  proof (cases "recordSuccess m e h")
    case None
    with Cons.IH [of "recordSuccess m e"] Cons.prems(1) show ?thesis
      by auto
  next
    case (Some w)
    with Cons.prems(2) have "\<exists>ctx addrs. e = Resolve ctx h (addrs, None)"
      by (cases e) (auto split: option.splits if_splits)
    then show ?thesis by auto
  qed
qed

subsection \<open>The sweep\<close>

lemma ncalls_refreshOne [simp]:
  "ncalls (trace (snd (refreshOne env addr s))) = Suc (ncalls (trace s))"
  by (cases "snd (env (ncalls (trace s)) (WithTimeout Background (lookupTimeout s)) addr)";
      cases "logger s") (simp_all add: refreshOne_cases)

lemma cache_refreshOne_other:
  "h \<noteq> addr \<Longrightarrow> cache (snd (refreshOne env addr s)) h = cache s h"
  by (cases "snd (env (ncalls (trace s)) (WithTimeout Background (lookupTimeout s)) addr)";
      cases "logger s") (simp_all add: refreshOne_cases)

lemma cache_refreshOne_same:
  "cache (snd (refreshOne env addr s)) addr =
     (case snd (env (ncalls (trace s)) (WithTimeout Background (lookupTimeout s)) addr) of
        None \<Rightarrow> Some (Slice (map IP (elems (fst (env (ncalls (trace s))
                  (WithTimeout Background (lookupTimeout s)) addr)))))
      | Some e \<Rightarrow> cache s addr)"
  by (cases "snd (env (ncalls (trace s)) (WithTimeout Background (lookupTimeout s)) addr)";
      cases "logger s") (simp_all add: refreshOne_cases)

lemma resolves_refreshOne:
  "filter isResolve (trace (snd (refreshOne env addr s))) =
     filter isResolve (trace s) @
       [Resolve (WithTimeout Background (lookupTimeout s)) addr
          (env (ncalls (trace s)) (WithTimeout Background (lookupTimeout s)) addr)]"
  by (cases "snd (env (ncalls (trace s)) (WithTimeout Background (lookupTimeout s)) addr)";
      cases "logger s") (simp_all add: refreshOne_cases)

lemma logs_refreshOne:
  assumes "fst (refreshOne env addr s) = None"
  shows "filter isLogError (trace (snd (refreshOne env addr s))) =
     filter isLogError (trace s) @
       (case snd (env (ncalls (trace s)) (WithTimeout Background (lookupTimeout s)) addr) of
          None \<Rightarrow> []
        | Some e \<Rightarrow> [LogError e addr])"
  using assms
  by (cases "snd (env (ncalls (trace s)) (WithTimeout Background (lookupTimeout s)) addr)";
      cases "logger s") (simp_all add: refreshOne_cases)

lemma loggable_Nil [simp]: "loggable env [] s"
  by (simp add: loggable_def)

lemma loggable_Cons:
  assumes "loggable env (a # addrs) s"
  shows "fst (refreshOne env a s) = None" and "loggable env addrs (snd (refreshOne env a s))"
proof -
  show "fst (refreshOne env a s) = None"
  proof (cases "logger s")
    case True
    then show ?thesis
      by (cases "snd (env (ncalls (trace s)) (WithTimeout Background (lookupTimeout s)) a)")
        (simp_all add: refreshOne_cases)
  next
    case False
    then have "snd (env (ncalls (trace s)) (WithTimeout Background (lookupTimeout s)) a) = None"
      using assms by (simp add: loggable_def)
    then show ?thesis
      by (simp add: refreshOne_success)
  qed
  show "loggable env addrs (snd (refreshOne env a s))"
    using assms by (auto simp add: loggable_def)
qed

lemma sweep_completes:
  "loggable env addrs s \<Longrightarrow> fst (sweep env addrs s) = None"
proof (induction addrs arbitrary: s)
  case Nil
  then show ?case by simp
next
  case (Cons a addrs)
  from loggable_Cons [OF Cons.prems] Cons.IH show ?case
    by (simp add: sweep_Cons)
qed

lemma cache_sweep_other:
  "h \<notin> set addrs \<Longrightarrow> cache (snd (sweep env addrs s)) h = cache s h"
  by (induction addrs arbitrary: s) (simp_all add: sweep_Cons cache_refreshOne_other)

lemma resolves_sweep:
  "loggable env addrs s \<Longrightarrow>
   filter isResolve (trace (snd (sweep env addrs s))) =
     filter isResolve (trace s) @
       map (\<lambda>(k, h). Resolve (WithTimeout Background (lookupTimeout s)) h
                        (env k (WithTimeout Background (lookupTimeout s)) h))
         (List.enumerate (ncalls (trace s)) addrs)"
proof (induction addrs arbitrary: s)
  case Nil
  then show ?case by simp
next
  case (Cons a addrs)
  from loggable_Cons [OF Cons.prems] Cons.IH [of "snd (refreshOne env a s)"] show ?case
    by (simp add: sweep_Cons resolves_refreshOne)
qed

lemma logs_sweep:
  "loggable env addrs s \<Longrightarrow>
   filter isLogError (trace (snd (sweep env addrs s))) =
     filter isLogError (trace s) @
       concat (map (\<lambda>(k, h). case snd (env k (WithTimeout Background (lookupTimeout s)) h) of
                                None \<Rightarrow> []
                              | Some e \<Rightarrow> [LogError e h])
         (List.enumerate (ncalls (trace s)) addrs))"
proof (induction addrs arbitrary: s)
  case Nil
  then show ?case by simp
next
  case (Cons a addrs)
  from loggable_Cons [OF Cons.prems] Cons.IH [of "snd (refreshOne env a s)"] show ?case
    by (simp add: sweep_Cons logs_refreshOne)
qed

lemma cache_sweep:
  assumes "loggable env addrs s" and "distinct addrs"
    and "(k, h) \<in> set (List.enumerate (ncalls (trace s)) addrs)"
  shows "cache (snd (sweep env addrs s)) h =
           (case snd (env k (WithTimeout Background (lookupTimeout s)) h) of
              None \<Rightarrow> Some (Slice (map IP (elems (fst (env k
                        (WithTimeout Background (lookupTimeout s)) h)))))
            | Some e \<Rightarrow> cache s h)"
  using assms
proof (induction addrs arbitrary: s)
  case Nil
  then show ?case by simp
next
  case (Cons a addrs)
  note ok = loggable_Cons [OF Cons.prems(1)]
  show ?case
  proof (cases "(k, h) = (ncalls (trace s), a)")
    case True
    then have "h \<notin> set addrs"
      using Cons.prems(2) by simp
    then have "cache (snd (sweep env (a # addrs) s)) h = cache (snd (refreshOne env a s)) h"
      using ok(1) by (simp add: sweep_Cons cache_sweep_other)
    then show ?thesis
      using True by (simp add: cache_refreshOne_same cong: option.case_cong)
  next
    case False
    then have m: "(k, h) \<in> set (List.enumerate (ncalls (trace (snd (refreshOne env a s)))) addrs)"
      using Cons.prems(3) by auto
    then have "h \<in> set addrs"
      by (auto simp add: in_set_enumerate_eq)
    then have n: "h \<noteq> a"
      using Cons.prems(2) by auto
    have d: "distinct addrs"
      using Cons.prems(2) by simp
    from Cons.IH [OF ok(2) d m] show ?thesis
      using n ok(1) by (simp add: sweep_Cons cache_refreshOne_other cong: option.case_cong)
  qed
qed

lemma loggable_emit_locks [simp]:
  "loggable env addrs (emit [RLock, MapRange, RUnlock] s) = loggable env addrs s"
  by (simp add: loggable_def)

lemma filter_newEvents:
  assumes "trace s' = trace s @ es"
  shows "filter P (trace s') = filter P (trace s) @ filter P (newEvents s s')"
  using assms by (simp add: newEvents_def)

section \<open>Construction\<close>

lemma sint_defaultFreq: "sint defaultFreq = 3000000000"
  by (simp add: defaultFreq_def Second_def)

text \<open>
  C8. The constructor never panics and returns a resolver whose ticker period is the
  supplied refresh interval when that is positive and 3 seconds otherwise, and whose
  lookup timeout is the supplied one when that is positive and 10 seconds otherwise.
\<close>

theorem NewDNSResolver_defaults:
  "NewDNSResolver freq lt lg =
     Inr \<lparr> lookupTimeout = (if sint lt \<le> 0 then 10 * Second else lt),
           logger = lg,
           cache = Map.empty,
           closer = True,
           tickerPeriod = (if sint freq \<le> 0 then 3 * Second else freq),
           tickerStopped = False,
           chClosed = False,
           trace = [] \<rparr>"
  by (simp add: NewDNSResolver_def NewTicker_def sint_defaultFreq Let_def)
    (simp add: defaultFreq_def defaultLookupTimeout_def)

section \<open>Lookup and fetch\<close>

text \<open>
  C1. When the name resolver answers the lookup of a host \<open>H\<close> with an address list and no
  error, \<^verbatim>\<open>LookupIP\<close> returns the IPs of that list with a nil error, and in the state
  it returns the cache maps \<open>H\<close> to that list, whatever \<open>H\<close> had before and also when
  the list is empty; every other entry is as before. The write is made under the
  exclusive lock, after the resolution.
\<close>

theorem LookupIP_stores_and_returns:
  assumes "env (ncalls (trace s)) ctx H = (addrs, None)"
  shows "fst (LookupIP env ctx H s) = (Slice (map IP (elems addrs)), None) \<and>
         cache (snd (LookupIP env ctx H s)) = (cache s)(H \<mapsto> Slice (map IP (elems addrs))) \<and>
         newEvents s (snd (LookupIP env ctx H s)) =
           [Resolve ctx H (addrs, None), Lock, MapWrite H, Unlock]"
  using assms by (simp add: LookupIP_success)

theorem LookupIP_stores_and_returns_witness:
  "stubResolver (ncalls (trace fresh)) Background ''a.test'' = (Slice [addr10], None) \<and>
   fst (LookupIP stubResolver Background ''a.test'' fresh) = (Slice [[10, 0, 0, 1]], None) \<and>
   cache (snd (LookupIP stubResolver Background ''a.test'' fresh)) ''a.test'' =
     Some (Slice [[10, 0, 0, 1]])"
proof -
  have h: "stubResolver (ncalls (trace fresh)) Background ''a.test'' = (Slice [addr10], None)"
    by (simp add: stubResolver_def)
  from LookupIP_stores_and_returns
         [where env = stubResolver and s = fresh and ctx = Background
            and H = "''a.test''" and addrs = "Slice [addr10]", OF h]
  show ?thesis
    using h by (simp add: addr10_def)
qed

text \<open>
  C2. When the name resolver answers the lookup of \<open>H\<close> with an error, \<^verbatim>\<open>LookupIP\<close>
  returns the nil slice and that error, the state differs from the one before only by the
  resolution recorded in the trace, so the whole cache is as before, and a \<^verbatim>\<open>Fetch\<close> of
  \<open>H\<close> that follows returns the list \<open>H\<close> had before.
\<close>

theorem LookupIP_failure_keeps_cache:
  assumes "snd (env (ncalls (trace s)) ctx H) = Some e"
  shows "fst (LookupIP env ctx H s) = (nil, Some e) \<and>
         cache (snd (LookupIP env ctx H s)) = cache s \<and>
         snd (LookupIP env ctx H s) = emit [Resolve ctx H (env (ncalls (trace s)) ctx H)] s \<and>
         (\<forall>L ctx'. cache s H = Some L \<longrightarrow>
            fst (Fetch env ctx' H (snd (LookupIP env ctx H s))) = (L, None))"
  using assms by (simp add: LookupIP_failure Fetch_hit)

theorem LookupIP_failure_keeps_cache_witness:
  "snd (flakyResolver (ncalls (trace cached)) (WithCancel Background) ''a.test'') = Some (Err ''timeout'') \<and>
   cache cached ''a.test'' = Some (Slice [[10, 0, 0, 1]]) \<and>
   fst (LookupIP flakyResolver (WithCancel Background) ''a.test'' cached) = (nil, Some (Err ''timeout'')) \<and>
   cache (snd (LookupIP flakyResolver (WithCancel Background) ''a.test'' cached)) = cache cached \<and>
   fst (Fetch flakyResolver Background ''a.test''
          (snd (LookupIP flakyResolver (WithCancel Background) ''a.test'' cached))) =
     (Slice [[10, 0, 0, 1]], None)"
proof -
  have h: "snd (flakyResolver (ncalls (trace cached)) (WithCancel Background) ''a.test'') = Some (Err ''timeout'')"
    by (simp add: eval_defs)
  have c: "cache cached ''a.test'' = Some (Slice [[10, 0, 0, 1]])"
    by (simp add: eval_defs)
  from LookupIP_failure_keeps_cache
         [where env = flakyResolver and s = cached and ctx = "WithCancel Background"
            and H = "''a.test''" and e = "Err ''timeout''", OF h]
  show ?thesis using h c by (simp add: Fetch_hit)
qed

text \<open>
  C3. \<^verbatim>\<open>Fetch\<close> of a host that is not in the cache makes exactly one resolution, for that
  host and with the caller's context, and returns what \<^verbatim>\<open>lookupIPFn\<close> makes of its
  answer: the IP list and a nil error on success, the nil slice and the resolution's own
  error on failure. The error returned is always the error of the resolution.
\<close>

theorem Fetch_miss_one_resolution:
  assumes "cache s H = None"
  shows "filter isResolve (newEvents s (snd (Fetch env ctx H s))) =
           [Resolve ctx H (env (ncalls (trace s)) ctx H)] \<and>
         ncalls (trace (snd (Fetch env ctx H s))) = Suc (ncalls (trace s)) \<and>
         (snd (env (ncalls (trace s)) ctx H) = None \<longrightarrow>
            fst (Fetch env ctx H s) =
              (Slice (map IP (elems (fst (env (ncalls (trace s)) ctx H)))), None)) \<and>
         (\<forall>e. snd (env (ncalls (trace s)) ctx H) = Some e \<longrightarrow>
            fst (Fetch env ctx H s) = (nil, Some e)) \<and>
         snd (fst (Fetch env ctx H s)) = snd (env (ncalls (trace s)) ctx H)"
proof (cases "snd (env (ncalls (trace s)) ctx H)")
  case None
  then show ?thesis
    using assms by (simp add: Fetch_miss LookupIP_success newEvents_def)
next
  case (Some e)
  then show ?thesis
    using assms by (simp add: Fetch_miss LookupIP_failure newEvents_def)
qed

theorem Fetch_miss_one_resolution_witness:
  "cache fresh ''b.test'' = None \<and>
   filter isResolve (newEvents fresh (snd (Fetch stubResolver Background ''b.test'' fresh))) =
     [Resolve Background ''b.test'' (nil, Some (Err ''no such host''))] \<and>
   fst (Fetch stubResolver Background ''b.test'' fresh) = (nil, Some (Err ''no such host'')) \<and>
   ncalls (trace (snd (Fetch stubResolver Background ''b.test'' fresh))) = 1"
proof -
  have h: "cache fresh ''b.test'' = None"
    by (simp add: fresh_def)
  have r: "stubResolver (ncalls (trace fresh)) Background ''b.test'' = (nil, Some (Err ''no such host''))"
    by (simp add: stubResolver_def)
  have n: "ncalls (trace fresh) = 0"
    by (simp add: fresh_def)
  from Fetch_miss_one_resolution
         [where s = fresh and H = "''b.test''" and env = stubResolver and ctx = Background, OF h]
  show ?thesis using h r n by simp
qed

text \<open>
  C4. After a \<^verbatim>\<open>LookupIP\<close> of \<open>H\<close> that succeeded, a \<^verbatim>\<open>Fetch\<close> of \<open>H\<close> returns the same
  list with a nil error; it takes and releases the read lock, reads the map and makes no
  resolution.
\<close>

theorem Fetch_after_LookupIP:
  assumes "env (ncalls (trace s)) ctx H = (addrs, None)"
  shows "fst (Fetch env ctx' H (snd (LookupIP env ctx H s))) = (Slice (map IP (elems addrs)), None) \<and>
         fst (Fetch env ctx' H (snd (LookupIP env ctx H s))) = fst (LookupIP env ctx H s) \<and>
         newEvents (snd (LookupIP env ctx H s)) (snd (Fetch env ctx' H (snd (LookupIP env ctx H s)))) =
           [RLock, MapRead H, RUnlock] \<and>
         ncalls (trace (snd (Fetch env ctx' H (snd (LookupIP env ctx H s))))) =
           ncalls (trace (snd (LookupIP env ctx H s)))"
  using assms by (simp add: LookupIP_success Fetch_hit newEvents_def)

theorem Fetch_after_LookupIP_witness:
  "stubResolver (ncalls (trace fresh)) Background ''a.test'' = (Slice [addr10], None) \<and>
   fst (Fetch stubResolver (WithCancel Background) ''a.test''
          (snd (LookupIP stubResolver Background ''a.test'' fresh))) = (Slice [[10, 0, 0, 1]], None) \<and>
   ncalls (trace (snd (Fetch stubResolver (WithCancel Background) ''a.test''
          (snd (LookupIP stubResolver Background ''a.test'' fresh))))) = 1"
proof -
  have h: "stubResolver (ncalls (trace fresh)) Background ''a.test'' = (Slice [addr10], None)"
    by (simp add: stubResolver_def)
  have n: "ncalls (trace (snd (LookupIP stubResolver Background ''a.test'' fresh))) = 1"
    by (simp add: eval_defs)
  from Fetch_after_LookupIP
         [where env = stubResolver and s = fresh and ctx = Background and H = "''a.test''"
            and addrs = "Slice [addr10]" and ctx' = "WithCancel Background", OF h]
  show ?thesis using h n by (simp add: addr10_def)
qed

text \<open>
  C10. When the resolution of \<open>H\<close> succeeds with no address, \<^verbatim>\<open>LookupIP\<close> stores the
  empty, non-nil slice for \<open>H\<close>; every \<^verbatim>\<open>Fetch\<close> of \<open>H\<close> in any sequence of fetches
  that follows returns the empty slice with a nil error, makes no resolution and leaves the
  cache as it is.
\<close>

theorem empty_result_is_cached:
  assumes "env (ncalls (trace s)) ctx H = (addrs, None)" and "len addrs = 0"
  shows "fst (LookupIP env ctx H s) = (Slice [], None) \<and>
         cache (snd (LookupIP env ctx H s)) H = Some (Slice []) \<and>
         fst (FetchAll env ctxs H (snd (LookupIP env ctx H s))) =
           replicate (length ctxs) (Slice [], None) \<and>
         ncalls (trace (snd (FetchAll env ctxs H (snd (LookupIP env ctx H s))))) =
           ncalls (trace (snd (LookupIP env ctx H s))) \<and>
         cache (snd (FetchAll env ctxs H (snd (LookupIP env ctx H s)))) =
           cache (snd (LookupIP env ctx H s))"
proof -
  have e: "elems addrs = []"
    using assms(2) by (simp add: len_def)
  have c: "cache (snd (LookupIP env ctx H s)) H = Some (Slice [])"
    using assms(1) e by (simp add: LookupIP_success)
  show ?thesis
    using assms(1) e c by (simp add: FetchAll_hits [OF c]) (simp add: LookupIP_success)
qed

theorem empty_result_is_cached_witness:
  "stubResolver (ncalls (trace fresh)) Background ''empty.test'' = (Slice [], None) \<and>
   len (Slice [] :: IPAddr slice) = 0 \<and>
   cache (snd (LookupIP stubResolver Background ''empty.test'' fresh)) ''empty.test'' = Some (Slice []) \<and>
   fst (FetchAll stubResolver [Background, WithCancel Background] ''empty.test''
          (snd (LookupIP stubResolver Background ''empty.test'' fresh))) =
     [(Slice [], None), (Slice [], None)] \<and>
   ncalls (trace (snd (FetchAll stubResolver [Background, WithCancel Background] ''empty.test''
          (snd (LookupIP stubResolver Background ''empty.test'' fresh))))) = 1"
proof -
  have h: "stubResolver (ncalls (trace fresh)) Background ''empty.test'' = (Slice [], None)"
    by (simp add: stubResolver_def)
  have l: "len (Slice [] :: IPAddr slice) = 0"
    by (simp add: len_def)
  have n: "ncalls (trace (snd (LookupIP stubResolver Background ''empty.test'' fresh))) = 1"
    by (simp add: eval_defs)
  from empty_result_is_cached
         [where env = stubResolver and s = fresh and ctx = Background and H = "''empty.test''"
            and addrs = "Slice []" and ctxs = "[Background, WithCancel Background]", OF h l]
  show ?thesis using h l n by simp
qed

section \<open>The cache over runs of calls\<close>

text \<open>
  C5. In every state that calls of \<^verbatim>\<open>LookupIP\<close>, \<^verbatim>\<open>Fetch\<close>, \<^verbatim>\<open>Refresh\<close> and
  \<^verbatim>\<open>Stop\<close> reach from a newly constructed resolver, the cache is a map with, for each
  host, the result of the last successful resolution of that host in the trace and no
  entry for a host never resolved successfully. One more call only extends the trace,
  keeps every key, and adds a key only for a host that a resolution of that very call
  answered without error.
\<close>

theorem cache_invariant:
  assumes "NewDNSResolver freq lt lg = Inr ini"
  shows "cache (run env cs ini) = resolved (trace (run env cs ini)) \<and>
         cache (exec env c (run env cs ini)) = resolved (trace (exec env c (run env cs ini))) \<and>
         trace (exec env c (run env cs ini)) =
           trace (run env cs ini) @ newEvents (run env cs ini) (exec env c (run env cs ini)) \<and>
         dom (cache (run env cs ini)) \<subseteq> dom (cache (exec env c (run env cs ini))) \<and>
         (\<forall>h. h \<in> dom (cache (exec env c (run env cs ini))) \<longrightarrow> h \<notin> dom (cache (run env cs ini)) \<longrightarrow>
            (\<exists>ctx addrs. Resolve ctx h (addrs, None) \<in>
               set (newEvents (run env cs ini) (exec env c (run env cs ini)))))"
proof -
  let ?s = "run env cs ini"
  let ?s' = "exec env c ?s"
  have i: "cache ?s = resolved (trace ?s)"
    using inv_NewDNSResolver [OF assms] by (rule inv_run)
  then have i': "cache ?s' = resolved (trace ?s')"
    by (rule inv_exec)
  obtain es where "trace ?s' = trace ?s @ es"
    using trace_exec by blast
  then have t: "trace ?s' = trace ?s @ newEvents ?s ?s'"
    by (simp add: newEvents_def)
  have r: "cache ?s' = foldl recordSuccess (cache ?s) (newEvents ?s ?s')"
    using i i' t by (metis resolved_append)
  have d: "dom (cache ?s) \<subseteq> dom (cache ?s')"
    unfolding r by (rule dom_foldl_recordSuccess)
  have k: "\<exists>ctx addrs. Resolve ctx h (addrs, None) \<in> set (newEvents ?s ?s')"
    if "h \<in> dom (cache ?s')" and "h \<notin> dom (cache ?s)" for h
  proof -
    from that obtain v where "foldl recordSuccess (cache ?s) (newEvents ?s ?s') h = Some v"
      and "cache ?s h = None"
      using r by auto
    then show ?thesis
      by (rule new_key_foldl_recordSuccess)
  qed
  show ?thesis
    using i i' t d k by blast
qed

theorem cache_invariant_witness:
  "NewDNSResolver 0 0 True = Inr fresh \<and>
   cache (run flakyResolver [CallFetch Background ''a.test'', CallLookupIP Background ''a.test''] fresh) =
     [''a.test'' \<mapsto> Slice [[10, 0, 0, 1]]] \<and>
   resolved (trace (run flakyResolver [CallFetch Background ''a.test'', CallLookupIP Background ''a.test''] fresh)) =
     [''a.test'' \<mapsto> Slice [[10, 0, 0, 1]]] \<and>
   dom (cache (exec flakyResolver CallStop
          (run flakyResolver [CallFetch Background ''a.test'', CallLookupIP Background ''a.test''] fresh))) =
     {''a.test''}"
proof -
  have n: "NewDNSResolver 0 0 True = Inr fresh"
    by (rule NewDNSResolver_fresh)
  have c: "cache (run flakyResolver [CallFetch Background ''a.test'', CallLookupIP Background ''a.test''] fresh) =
     [''a.test'' \<mapsto> Slice [[10, 0, 0, 1]]]"
    by (simp add: eval_defs)
  note th = cache_invariant
    [where ini = fresh and env = flakyResolver and c = CallStop
       and cs = "[CallFetch Background ''a.test'', CallLookupIP Background ''a.test'']", OF n]
  have d: "dom (cache (exec flakyResolver CallStop
          (run flakyResolver [CallFetch Background ''a.test'', CallLookupIP Background ''a.test''] fresh))) =
     {''a.test''}"
    using c by (simp add: cache_Stop)
  from th have "resolved (trace (run flakyResolver [CallFetch Background ''a.test'', CallLookupIP Background ''a.test''] fresh)) =
     cache (run flakyResolver [CallFetch Background ''a.test'', CallLookupIP Background ''a.test''] fresh)"
    by simp
  then show ?thesis
    using n c d by simp
qed

section \<open>Refresh\<close>

text \<open>
  C6, as stated, fails: \<^verbatim>\<open>NewDNSResolver\<close> accepts the \<^verbatim>\<open>nil\<close> logger, and on such a
  resolver with \<^verbatim>\<open>a.test\<close> and \<^verbatim>\<open>b.test\<close> cached, a \<^verbatim>\<open>Refresh\<close> that visits
  \<^verbatim>\<open>b.test\<close> first and fails to resolve it panics at the log statement. The panic
  leaves \<^verbatim>\<open>Refresh\<close>, nothing is logged, and \<^verbatim>\<open>a.test\<close>, whose resolution would
  have succeeded with \<^verbatim>\<open>10.0.0.2\<close>, is not looked up and keeps \<^verbatim>\<open>10.0.0.1\<close>.
\<close>

theorem Refresh_nil_logger_counterexample:
  "NewDNSResolver 0 0 False = Inr freshNoLogger \<and>
   twoCachedNoLogger =
     run sweepResolver [CallLookupIP Background ''a.test'', CallFetch Background ''b.test'']
       freshNoLogger \<and>
   snapshot (cache twoCachedNoLogger) [''b.test'', ''a.test''] \<and>
   sweepResolver 3 (WithTimeout Background (10 * Second)) ''a.test'' = (Slice [addr10b], None) \<and>
   fst (Refresh sweepResolver [''b.test'', ''a.test''] twoCachedNoLogger) =
     Some NilPointerDereference \<and>
   newEvents twoCachedNoLogger (snd (Refresh sweepResolver [''b.test'', ''a.test''] twoCachedNoLogger)) =
     [RLock, MapRange, RUnlock,
      Resolve (WithTimeout Background (10 * Second)) ''b.test'' (nil, Some (Err ''timeout''))] \<and>
   cache (snd (Refresh sweepResolver [''b.test'', ''a.test''] twoCachedNoLogger)) ''a.test'' =
     Some (Slice [[10, 0, 0, 1]])"
proof -
  have s: "snapshot (cache twoCachedNoLogger) [''b.test'', ''a.test'']"
    by (auto simp add: twoCachedNoLogger_eq snapshot_def)
  have r: "Refresh sweepResolver [''b.test'', ''a.test''] twoCachedNoLogger =
             (Some NilPointerDereference,
              emit [RLock, MapRange, RUnlock,
                    Resolve (WithTimeout Background (10 * Second)) ''b.test'' (nil, Some (Err ''timeout''))]
                twoCachedNoLogger)"
    by (simp add: Refresh_def sweep_Cons refreshOne_def logFailure_def LookupIP_def lookupIPFn_def
        ipsOf_def sweepResolver_def twoCachedNoLogger_eq emit_def)
  have c: "cache twoCachedNoLogger ''a.test'' = Some (Slice [[10, 0, 0, 1]])"
    by (simp add: twoCachedNoLogger_eq)
  have d: "twoCachedNoLogger =
     run sweepResolver [CallLookupIP Background ''a.test'', CallFetch Background ''b.test'']
       freshNoLogger"
    by (rule twoCachedNoLogger_def)
  have a: "sweepResolver 3 (WithTimeout Background (10 * Second)) ''a.test'' = (Slice [addr10b], None)"
    by (simp add: sweepResolver_def)
  have p: "fst (Refresh sweepResolver [''b.test'', ''a.test''] twoCachedNoLogger) =
     Some NilPointerDereference"
    by (simp add: r)
  have e: "newEvents twoCachedNoLogger (snd (Refresh sweepResolver [''b.test'', ''a.test''] twoCachedNoLogger)) =
     [RLock, MapRange, RUnlock,
      Resolve (WithTimeout Background (10 * Second)) ''b.test'' (nil, Some (Err ''timeout''))]"
    by (simp add: r)
  have k: "cache (snd (Refresh sweepResolver [''b.test'', ''a.test''] twoCachedNoLogger)) ''a.test'' =
     Some (Slice [[10, 0, 0, 1]])"
    using c by (simp add: r)
  show ?thesis
    by (intro conjI NewDNSResolver_freshNoLogger d s a p e k)
qed

text \<open>
  C6, amended. On a resolver that has a logger, or in a sweep in which no resolution
  fails, \<^verbatim>\<open>Refresh\<close> on a snapshot \<open>addrs\<close> of the keys returns without a panic and
  makes one resolution for each host of the snapshot, in the snapshot's order and with
  the timeout context, whatever the earlier resolutions answered. A host whose resolution
  succeeds gets the new list, a host whose resolution fails keeps its entry and has its
  error logged, the log entries of the call are exactly those failures, and the key set
  is as before.
\<close>

theorem Refresh_partial_failure:
  assumes "snapshot (cache s) addrs" and "loggable env addrs s"
  shows "fst (Refresh env addrs s) = None \<and>
         filter isResolve (newEvents s (snd (Refresh env addrs s))) =
           map (\<lambda>(k, h). Resolve (WithTimeout Background (lookupTimeout s)) h
                            (env k (WithTimeout Background (lookupTimeout s)) h))
             (List.enumerate (ncalls (trace s)) addrs) \<and>
         (\<forall>(k, h) \<in> set (List.enumerate (ncalls (trace s)) addrs).
            (snd (env k (WithTimeout Background (lookupTimeout s)) h) = None \<longrightarrow>
               cache (snd (Refresh env addrs s)) h =
                 Some (Slice (map IP (elems (fst (env k
                   (WithTimeout Background (lookupTimeout s)) h)))))) \<and>
            (\<forall>e. snd (env k (WithTimeout Background (lookupTimeout s)) h) = Some e \<longrightarrow>
               cache (snd (Refresh env addrs s)) h = cache s h \<and>
               LogError e h \<in> set (newEvents s (snd (Refresh env addrs s))))) \<and>
         filter isLogError (newEvents s (snd (Refresh env addrs s))) =
           concat (map (\<lambda>(k, h). case snd (env k (WithTimeout Background (lookupTimeout s)) h) of
                                    None \<Rightarrow> []
                                  | Some e \<Rightarrow> [LogError e h])
             (List.enumerate (ncalls (trace s)) addrs)) \<and>
         dom (cache (snd (Refresh env addrs s))) = dom (cache s) \<and>
         set (map snd (List.enumerate (ncalls (trace s)) addrs)) = dom (cache s)"
proof -
  let ?ctx = "WithTimeout Background (lookupTimeout s)"
  let ?s1 = "emit [RLock, MapRange, RUnlock] s"
  let ?s' = "snd (Refresh env addrs s)"
  let ?en = "List.enumerate (ncalls (trace s)) addrs"
  have dist: "distinct addrs" and keys: "set addrs = dom (cache s)"
    using assms(1) by (simp_all add: snapshot_def)
  have ok: "loggable env addrs ?s1"
    using assms(2) by simp
  have 0: "fst (Refresh env addrs s) = None"
    using ok by (simp add: Refresh_def sweep_completes)
  obtain es where t: "trace ?s' = trace s @ es"
    using trace_Refresh by blast
  have "filter isResolve (trace ?s') =
          filter isResolve (trace s) @ map (\<lambda>(k, h). Resolve ?ctx h (env k ?ctx h)) ?en"
    using resolves_sweep [OF ok] by (simp add: Refresh_def)
  then have 1: "filter isResolve (newEvents s ?s') = map (\<lambda>(k, h). Resolve ?ctx h (env k ?ctx h)) ?en"
    by (simp add: filter_newEvents [OF t])
  have "filter isLogError (trace ?s') =
          filter isLogError (trace s) @
            concat (map (\<lambda>(k, h). case snd (env k ?ctx h) of None \<Rightarrow> [] | Some e \<Rightarrow> [LogError e h]) ?en)"
    using logs_sweep [OF ok] by (simp add: Refresh_def)
  then have 3: "filter isLogError (newEvents s ?s') =
            concat (map (\<lambda>(k, h). case snd (env k ?ctx h) of None \<Rightarrow> [] | Some e \<Rightarrow> [LogError e h]) ?en)"
    by (simp add: filter_newEvents [OF t])
  have c: "cache ?s' h =
             (case snd (env k ?ctx h) of
                None \<Rightarrow> Some (Slice (map IP (elems (fst (env k ?ctx h)))))
              | Some e \<Rightarrow> cache s h)"
    if "(k, h) \<in> set ?en" for k h
    using cache_sweep [of env addrs ?s1 k h] ok dist that
    by (simp add: Refresh_def cong: option.case_cong)
  have l: "LogError e h \<in> set (newEvents s ?s')"
    if "(k, h) \<in> set ?en" and "snd (env k ?ctx h) = Some e" for k h e
  proof -
    have "LogError e h \<in> set (filter isLogError (newEvents s ?s'))"
      unfolding 3 using that by force
    then show ?thesis by simp
  qed
  have 2: "\<forall>(k, h) \<in> set ?en.
            (snd (env k ?ctx h) = None \<longrightarrow>
               cache ?s' h = Some (Slice (map IP (elems (fst (env k ?ctx h)))))) \<and>
            (\<forall>e. snd (env k ?ctx h) = Some e \<longrightarrow>
               cache ?s' h = cache s h \<and> LogError e h \<in> set (newEvents s ?s'))"
    using c l by (auto split: option.splits)
  have 5: "set (map snd ?en) = dom (cache s)"
    using keys by simp
  have 4: "dom (cache ?s') = dom (cache s)"
  proof (rule set_eqI)
    fix h
    show "h \<in> dom (cache ?s') \<longleftrightarrow> h \<in> dom (cache s)"
    proof (cases "h \<in> set addrs")
      case True
      then have "h \<in> set (map snd ?en)"
        by simp
      then have "h \<in> snd ` set ?en"
        by (simp only: set_map)
      then obtain k where "(k, h) \<in> set ?en"
        by auto
      from c [OF this] show ?thesis
        using True keys by (auto split: option.splits)
    next
      case False
      then have "cache ?s' h = cache s h"
        by (simp add: Refresh_def cache_sweep_other)
      then show ?thesis by (simp add: dom_def)
    qed
  qed
  show ?thesis
    by (intro conjI 0 1 2 3 4 5)
qed

theorem Refresh_partial_failure_witness:
  "snapshot (cache twoCached) [''b.test'', ''a.test''] \<and>
   loggable sweepResolver [''b.test'', ''a.test''] twoCached \<and>
   fst (Refresh sweepResolver [''b.test'', ''a.test''] twoCached) = None \<and>
   cache (snd (Refresh sweepResolver [''b.test'', ''a.test''] twoCached)) ''a.test'' =
     Some (Slice [[10, 0, 0, 2]]) \<and>
   cache (snd (Refresh sweepResolver [''b.test'', ''a.test''] twoCached)) ''b.test'' =
     Some (Slice [[10, 0, 0, 1]]) \<and>
   filter isLogError (newEvents twoCached (snd (Refresh sweepResolver [''b.test'', ''a.test''] twoCached))) =
     [LogError (Err ''timeout'') ''b.test''] \<and>
   filter isResolve (newEvents twoCached (snd (Refresh sweepResolver [''b.test'', ''a.test''] twoCached))) =
     [Resolve (WithTimeout Background (10 * Second)) ''b.test'' (nil, Some (Err ''timeout'')),
      Resolve (WithTimeout Background (10 * Second)) ''a.test'' (Slice [addr10b], None)]"
proof -
  have s: "snapshot (cache twoCached) [''b.test'', ''a.test'']"
    by (auto simp add: twoCached_eq snapshot_def)
  have g: "loggable sweepResolver [''b.test'', ''a.test''] twoCached"
    by (simp add: loggable_def twoCached_eq)
  have n: "ncalls (trace twoCached) = 2"
    by (simp add: twoCached_eq)
  have t: "lookupTimeout twoCached = 10 * Second"
    by (simp add: twoCached_eq)
  have c: "cache twoCached ''b.test'' = Some (Slice [[10, 0, 0, 1]])"
    by (simp add: twoCached_eq)
  note th = Refresh_partial_failure
    [where s = twoCached and addrs = "[''b.test'', ''a.test'']" and env = sweepResolver, OF s g]
  show ?thesis
    using s g th c by (simp add: n t sweepResolver_def addr10b_def)
qed

section \<open>Stop\<close>

text \<open>
  C7. From a newly constructed resolver and after any calls, \<^verbatim>\<open>Stop\<close> does not panic
  and leaves the cache as it is. A \<^verbatim>\<open>Stop\<close> right after it, or after any further calls,
  finds the closer nil: it takes and releases the lock, does not call the closer again,
  does not panic and changes no field of the resolver.
\<close>

theorem Stop_idempotent:
  assumes "NewDNSResolver freq lt lg = Inr ini"
  shows "fst (Stop (run env cs ini)) = None \<and>
         cache (snd (Stop (run env cs ini))) = cache (run env cs ini) \<and>
         Stop (snd (Stop (run env cs ini))) =
           (None, emit [Lock, Unlock] (snd (Stop (run env cs ini)))) \<and>
         Stop (run env cs' (snd (Stop (run env cs ini)))) =
           (None, emit [Lock, Unlock] (run env cs' (snd (Stop (run env cs ini)))))"
proof -
  have l: "closer (run env cs ini) \<longrightarrow> \<not> chClosed (run env cs ini)"
    using live_NewDNSResolver [OF assms] by (intro live_run) simp
  then have c: "\<not> closer (snd (Stop (run env cs ini)))"
    by (rule closer_Stop)
  then have "\<not> closer (run env cs' (snd (Stop (run env cs ini))))"
    by (rule closer_run)
  then show ?thesis
    using l c by (simp add: Stop_closed no_panic_Stop cache_Stop)
qed

theorem Stop_idempotent_witness:
  "NewDNSResolver 0 0 True = Inr fresh \<and>
   Stop fresh =
     (None, \<lparr> lookupTimeout = 10 * Second, logger = True, cache = Map.empty, closer = False,
              tickerPeriod = 3 * Second, tickerStopped = True, chClosed = True,
              trace = [Lock, CallCloser, Unlock] \<rparr>) \<and>
   Stop (snd (Stop fresh)) =
     (None, \<lparr> lookupTimeout = 10 * Second, logger = True, cache = Map.empty, closer = False,
              tickerPeriod = 3 * Second, tickerStopped = True, chClosed = True,
              trace = [Lock, CallCloser, Unlock, Lock, Unlock] \<rparr>)"
proof -
  have n: "NewDNSResolver 0 0 True = Inr fresh"
    by (rule NewDNSResolver_fresh)
  have f: "Stop fresh =
     (None, \<lparr> lookupTimeout = 10 * Second, logger = True, cache = Map.empty, closer = False,
              tickerPeriod = 3 * Second, tickerStopped = True, chClosed = True,
              trace = [Lock, CallCloser, Unlock] \<rparr>)"
    by (simp add: Stop_def callCloser_def emit_def fresh_def Let_def)
  from Stop_idempotent [where ini = fresh and cs = "[]" and cs' = "[]" and env = stubResolver, OF n]
  show ?thesis
    using n f by (simp add: emit_def fresh_def)
qed

section \<open>Lock discipline\<close>

text \<open>
  C9. The events of every call of \<^verbatim>\<open>LookupIP\<close>, \<^verbatim>\<open>Fetch\<close>, \<^verbatim>\<open>Refresh\<close> and
  \<^verbatim>\<open>Stop\<close>, in program order, keep the lock discipline: the map is read (the hit
  check of \<^verbatim>\<open>Fetch\<close>, the key snapshot of \<^verbatim>\<open>Refresh\<close>) under the shared lock only,
  it is written and the closer is called under the exclusive lock only, every resolution
  is made with no lock held, and the call ends with the lock released. The events of
  the writers are pinned down: \<^verbatim>\<open>LookupIP\<close> makes its resolution first and, exactly
  when that succeeds, changes the cache between \<open>Lock\<close> and \<open>Unlock\<close>; \<^verbatim>\<open>Stop\<close>
  always takes and releases the exclusive lock and, exactly when the closer is not nil,
  calls it in between, which is the only way the ticker and the channel change. So are
  the events of the readers: \<^verbatim>\<open>Fetch\<close> starts with \<open>RLock\<close>, the read, \<open>RUnlock\<close>,
  followed on a miss by the events of \<^verbatim>\<open>LookupIP\<close> and by nothing on a hit, and
  \<^verbatim>\<open>Refresh\<close> starts with \<open>RLock\<close>, the key snapshot, \<open>RUnlock\<close>. This is about
  the locks of the calling goroutine, not about the interleaving with other goroutines.
\<close>

theorem lock_discipline:
  "trace (exec env c s) = trace s @ newEvents s (exec env c s) \<and>
   discipline Free (newEvents s (exec env c s)) \<and>
   MapRead addr \<in> set (newEvents s (snd (Fetch env ctx addr s))) \<and>
   MapRange \<in> set (newEvents s (snd (Refresh env addrs s))) \<and>
   newEvents s (snd (LookupIP env ctx addr s)) =
     (case snd (env (ncalls (trace s)) ctx addr) of
        None \<Rightarrow> [Resolve ctx addr (env (ncalls (trace s)) ctx addr), Lock, MapWrite addr, Unlock]
      | Some e \<Rightarrow> [Resolve ctx addr (env (ncalls (trace s)) ctx addr)]) \<and>
   cache (snd (LookupIP env ctx addr s)) =
     (case snd (env (ncalls (trace s)) ctx addr) of
        None \<Rightarrow> (cache s)(addr \<mapsto> Slice (map IP (elems (fst (env (ncalls (trace s)) ctx addr)))))
      | Some e \<Rightarrow> cache s) \<and>
   newEvents s (snd (Fetch env ctx addr s)) =
     [RLock, MapRead addr, RUnlock] @
     (case cache s addr of
        Some ips \<Rightarrow> []
      | None \<Rightarrow>
          (case snd (env (ncalls (trace s)) ctx addr) of
             None \<Rightarrow> [Resolve ctx addr (env (ncalls (trace s)) ctx addr), Lock, MapWrite addr, Unlock]
           | Some e \<Rightarrow> [Resolve ctx addr (env (ncalls (trace s)) ctx addr)])) \<and>
   take 3 (newEvents s (snd (Refresh env addrs s))) = [RLock, MapRange, RUnlock] \<and>
   newEvents s (snd (Stop s)) = (if closer s then [Lock, CallCloser, Unlock] else [Lock, Unlock]) \<and>
   closer (snd (Stop s)) = (closer s \<and> chClosed s) \<and>
   tickerStopped (snd (Stop s)) = (closer s \<or> tickerStopped s) \<and>
   chClosed (snd (Stop s)) = (closer s \<or> chClosed s)"
proof -
  obtain es where 1: "trace (exec env c s) = trace s @ es" and 2: "discipline Free es"
    using trace_exec by blast
  have 5: "newEvents s (snd (LookupIP env ctx addr s)) =
     (case snd (env (ncalls (trace s)) ctx addr) of
        None \<Rightarrow> [Resolve ctx addr (env (ncalls (trace s)) ctx addr), Lock, MapWrite addr, Unlock]
      | Some e \<Rightarrow> [Resolve ctx addr (env (ncalls (trace s)) ctx addr)])"
    by (cases "snd (env (ncalls (trace s)) ctx addr)")
      (simp_all add: LookupIP_success LookupIP_failure)
  have 6: "cache (snd (LookupIP env ctx addr s)) =
     (case snd (env (ncalls (trace s)) ctx addr) of
        None \<Rightarrow> (cache s)(addr \<mapsto> Slice (map IP (elems (fst (env (ncalls (trace s)) ctx addr)))))
      | Some e \<Rightarrow> cache s)"
    by (cases "snd (env (ncalls (trace s)) ctx addr)")
      (simp_all add: LookupIP_success LookupIP_failure)
  have 7: "newEvents s (snd (Fetch env ctx addr s)) =
     [RLock, MapRead addr, RUnlock] @
     (case cache s addr of
        Some ips \<Rightarrow> []
      | None \<Rightarrow>
          (case snd (env (ncalls (trace s)) ctx addr) of
             None \<Rightarrow> [Resolve ctx addr (env (ncalls (trace s)) ctx addr), Lock, MapWrite addr, Unlock]
           | Some e \<Rightarrow> [Resolve ctx addr (env (ncalls (trace s)) ctx addr)]))"
    by (cases "cache s addr"; cases "snd (env (ncalls (trace s)) ctx addr)")
      (simp_all add: Fetch_hit Fetch_miss LookupIP_success LookupIP_failure newEvents_def)
  have 3: "MapRead addr \<in> set (newEvents s (snd (Fetch env ctx addr s)))"
    unfolding 7 by simp
  have 8: "take 3 (newEvents s (snd (Refresh env addrs s))) = [RLock, MapRange, RUnlock]"
  proof -
    obtain fs where "trace (snd (sweep env addrs (emit [RLock, MapRange, RUnlock] s))) =
       trace (emit [RLock, MapRange, RUnlock] s) @ fs"
      using trace_sweep by blast
    then show ?thesis by (simp add: Refresh_def newEvents_def)
  qed
  have 4: "MapRange \<in> set (newEvents s (snd (Refresh env addrs s)))"
  proof -
    have "MapRange \<in> set (take 3 (newEvents s (snd (Refresh env addrs s))))"
      unfolding 8 by simp
    then show ?thesis
      by (rule in_set_takeD)
  qed
  have 9: "newEvents s (snd (Stop s)) = (if closer s then [Lock, CallCloser, Unlock] else [Lock, Unlock])"
    by (cases "closer s") (simp_all add: Stop_closed Stop_open newEvents_def)
  have 10: "closer (snd (Stop s)) = (closer s \<and> chClosed s)"
    by (cases "closer s") (simp_all add: Stop_closed Stop_open)
  have 11: "tickerStopped (snd (Stop s)) = (closer s \<or> tickerStopped s)"
    by (cases "closer s") (simp_all add: Stop_closed Stop_open)
  have 12: "chClosed (snd (Stop s)) = (closer s \<or> chClosed s)"
    by (cases "closer s") (simp_all add: Stop_closed Stop_open)
  have a: "trace (exec env c s) = trace s @ newEvents s (exec env c s)"
    using 1 by (simp add: newEvents_append)
  have b: "discipline Free (newEvents s (exec env c s))"
    using 1 2 by (simp add: newEvents_append)
  show ?thesis
    by (intro conjI a b 3 4 5 6 7 8 9 10 11 12)
qed

theorem lock_discipline_witness:
  "newEvents fresh (exec stubResolver (CallFetch Background ''a.test'') fresh) =
     [RLock, MapRead ''a.test'', RUnlock,
      Resolve Background ''a.test'' (Slice [addr10], None), Lock, MapWrite ''a.test'', Unlock] \<and>
   discipline Free (newEvents fresh (exec stubResolver (CallFetch Background ''a.test'') fresh)) \<and>
   newEvents fresh (snd (LookupIP stubResolver Background ''a.test'' fresh)) =
     [Resolve Background ''a.test'' (Slice [addr10], None), Lock, MapWrite ''a.test'', Unlock] \<and>
   newEvents fresh (snd (Stop fresh)) = [Lock, CallCloser, Unlock] \<and>
   newEvents (snd (Stop fresh)) (snd (Stop (snd (Stop fresh)))) = [Lock, Unlock]"
proof -
  have e: "newEvents fresh (exec stubResolver (CallFetch Background ''a.test'') fresh) =
     [RLock, MapRead ''a.test'', RUnlock,
      Resolve Background ''a.test'' (Slice [addr10], None), Lock, MapWrite ''a.test'', Unlock]"
    by (simp add: eval_defs)
  have r: "stubResolver (ncalls (trace fresh)) Background ''a.test'' = (Slice [addr10], None)"
    by (simp add: stubResolver_def)
  have f: "closer fresh" "\<not> chClosed fresh"
    by (simp_all add: fresh_def)
  note th = lock_discipline
    [where s = fresh and env = stubResolver and c = "CallFetch Background ''a.test''"
       and ctx = Background and addr = "''a.test''"]
  note th2 = lock_discipline [where s = "snd (Stop fresh)"]
  have "\<not> closer (snd (Stop fresh))"
    using th f by simp
  then have "newEvents (snd (Stop fresh)) (snd (Stop (snd (Stop fresh)))) = [Lock, Unlock]"
    using th2 by simp
  then show ?thesis
    using th e r f by simp
qed

end
